theory Spec2Isabelle
  imports Complex_Main
begin

section \<open>The notebook \<open>electronic-configuration.ipynb\<close> as functions of its inputs\<close>

text \<open>
  The notebook is a straight-line script over the global variables \<open>n\<close> (the number of
  electrons) and \<open>e\<close> (the total energy). Every later variable is a function of these
  two, and is modelled as such, under the name it has in the notebook.

  \<^item> \<open>n\<close> is a natural number: \<open>np.ones(n//2)\<close> rejects a negative count.
  \<^item> \<open>e\<close> and the numpy float arrays are modelled over the rationals, with exact
    arithmetic. That is what float64 computes on the inputs singled out by
    \<open>float64_exact\<close> below. Elsewhere float64 rounds, and what \<open>np.dot\<close> then
    returns depends on the order in which the routine behind it adds, which the
    notebook does not fix. The statements on the energy of the printed configurations
    and on the warning carry \<open>float64_exact\<close> as a hypothesis.
  \<^item> Python integers (\<open>max_en\<close>, \<open>min_en\<close>, \<open>updated_n\<close>, the occupancies) are
    \<open>int\<close>.
  \<^item> \<open>print\<close> is modelled by the list of lines printed.
\<close>

subsection \<open>Python and numpy primitives\<close>

text \<open>\<open>x % 1\<close>: the result has the sign of the divisor, so it is \<open>x - floor x\<close>.\<close>

definition py_mod1 :: "rat \<Rightarrow> rat" where
  "py_mod1 x = x - of_int \<lfloor>x\<rfloor>"

text \<open>\<open>int(x)\<close> truncates towards zero.\<close>

definition py_int :: "rat \<Rightarrow> int" where
  "py_int x = (if 0 \<le> x then \<lfloor>x\<rfloor> else \<lceil>x\<rceil>)"

text \<open>
  \<open>np.dot\<close> of two one-dimensional arrays. Every call in the notebook passes two arrays
  of the same length (the second is built from the length of the first), so the shape
  error of \<open>np.dot\<close> cannot arise.
\<close>

fun dot :: "rat list \<Rightarrow> rat list \<Rightarrow> rat" where
  "dot (x # xs) (y # ys) = x * y + dot xs ys"
| "dot _ _ = 0"

text \<open>\<open>np.arange(0.5, 0.5 + m)\<close>: the \<open>m\<close> values \<open>0.5, 1.5, ...\<close>.\<close>

definition arange_half :: "nat \<Rightarrow> rat list" where
  "arange_half m = map (\<lambda>i. 1 / 2 + of_nat i) [0..<m]"

text \<open>
  \<open>variations(seq, k, True)\<close> of sympy: for \<open>k = 0\<close> the single empty tuple, otherwise
  \<open>itertools.product(seq, repeat=k)\<close>, whose leftmost position varies slowest.
\<close>

fun variations :: "'a list \<Rightarrow> nat \<Rightarrow> 'a list list" where
  "variations seq 0 = [[]]"
| "variations seq (Suc k) = concat (map (\<lambda>x. map ((#) x) (variations seq k)) seq)"

subsection \<open>The printed lines\<close>

datatype line =
    Invalid_values
  | Given_energy_is_ground_state_energy
  | Max_Min int int
  | Configuration "int list"
  | There_are_configurations nat

subsection \<open>Cell 4: the parity check\<close>

definition parity_ok :: "nat \<Rightarrow> rat \<Rightarrow> bool" where
  "parity_ok n e \<longleftrightarrow>
     (n mod 2 = 0 \<and> py_mod1 e = 0) \<or> (n mod 2 = 1 \<and> py_mod1 e = 1 / 2)"

definition cell4 :: "nat \<Rightarrow> rat \<Rightarrow> line list" where
  "cell4 n e = (if parity_ok n e then [] else [Invalid_values])"

subsection \<open>Cells 6 and 8: the ground state and its level energies\<close>

definition electron_states0 :: "nat \<Rightarrow> rat list" where
  "electron_states0 n =
     (let electron_states = replicate (n div 2) 2
      in if \<not> n mod 2 = 0 then electron_states @ [1] else electron_states)"

definition energy0 :: "nat \<Rightarrow> rat list" where
  "energy0 n = arange_half (length (electron_states0 n))"

subsection \<open>Cell 10: the ground state energy\<close>

definition ground_state_energy :: "nat \<Rightarrow> rat" where
  "ground_state_energy n = dot (electron_states0 n) (energy0 n)"

definition cell10 :: "nat \<Rightarrow> rat \<Rightarrow> line list" where
  "cell10 n e =
     (if e < ground_state_energy n then [Invalid_values]
      else if e = ground_state_energy n then [Given_energy_is_ground_state_energy]
      else [])"

subsection \<open>Cell 12: the highest level and the untouched low levels\<close>

definition max_en :: "nat \<Rightarrow> rat \<Rightarrow> int" where
  "max_en n e = py_int (of_nat (length (electron_states0 n)) + (e - ground_state_energy n))"

definition min_en :: "nat \<Rightarrow> rat \<Rightarrow> int" where
  "min_en n e =
     (let m = py_int (of_nat (length (electron_states0 n)) - (e - ground_state_energy n));
          m = (if n mod 2 = 1 then m - 1 else m)
      in if m > 0 then m else 0)"

definition cell12 :: "nat \<Rightarrow> rat \<Rightarrow> line list" where
  "cell12 n e = [Max_Min (max_en n e) (min_en n e)]"

subsection \<open>Cells 14 and 15: extending the arrays\<close>

text \<open>The loop \<open>while len(electron_states) < max_en: append 0\<close>.\<close>

function extend :: "rat list \<Rightarrow> int \<Rightarrow> rat list" where
  "extend es m = (if int (length es) < m then extend (es @ [0]) m else es)"
  by pat_completeness auto
termination
  by (relation "measure (\<lambda>(es, m). nat (m - int (length es)))") auto

declare extend.simps [simp del]

definition electron_states :: "nat \<Rightarrow> rat \<Rightarrow> rat list" where
  "electron_states n e = extend (electron_states0 n) (max_en n e)"

definition energy_all :: "nat \<Rightarrow> rat \<Rightarrow> rat list" where
  "energy_all n e = arange_half (length (electron_states n e))"

subsection \<open>Cells 17 and 18: the slices\<close>

text \<open>
  \<open>min_en\<close> is never negative here, so the slices \<open>energy[:min_en]\<close> and
  \<open>energy[min_en:]\<close> are \<open>take\<close> and \<open>drop\<close>, both of which stop at the end of the
  array as Python's slices do.
\<close>

definition temp_energy :: "nat \<Rightarrow> rat \<Rightarrow> rat list" where
  "temp_energy n e =
     (if min_en n e = 0 then [0] else take (nat (min_en n e)) (energy_all n e))"

definition energy :: "nat \<Rightarrow> rat \<Rightarrow> rat list" where
  "energy n e = drop (nat (min_en n e)) (energy_all n e)"

subsection \<open>Cell 20: the enumeration\<close>

definition updated_n :: "nat \<Rightarrow> rat \<Rightarrow> int" where
  "updated_n n e = int n - min_en n e * 2"

definition updated_e :: "nat \<Rightarrow> rat \<Rightarrow> rat" where
  "updated_e n e = e - dot (temp_energy n e) (replicate (length (temp_energy n e)) 2)"

text \<open>
  The body of the \<open>for\<close> loop, over the candidates still to come; the state is the list
  of configurations printed so far and \<open>count\<close>.
\<close>

fun enumeration_loop ::
  "nat \<Rightarrow> rat \<Rightarrow> int list list \<Rightarrow> int list list \<times> nat \<Rightarrow> int list list \<times> nat" where
  "enumeration_loop n e [] st = st"
| "enumeration_loop n e (i # rest) (printed, count) =
     (if sum_list i = updated_n n e \<and> dot (map of_int i) (energy n e) = updated_e n e
      then enumeration_loop n e rest
             (printed @ [replicate (nat (min_en n e)) 2 @ i], count + 1)
      else enumeration_loop n e rest (printed, count))"

definition cell20_state :: "nat \<Rightarrow> rat \<Rightarrow> int list list \<times> nat" where
  "cell20_state n e =
     enumeration_loop n e (variations [0, 1, 2] (length (energy n e))) ([], 0)"

definition configurations :: "nat \<Rightarrow> rat \<Rightarrow> int list list" where
  "configurations n e = fst (cell20_state n e)"

definition count :: "nat \<Rightarrow> rat \<Rightarrow> nat" where
  "count n e = snd (cell20_state n e)"

definition cell20 :: "nat \<Rightarrow> rat \<Rightarrow> line list" where
  "cell20 n e = map Configuration (configurations n e) @ [There_are_configurations (count n e)]"

subsection \<open>The whole run\<close>

definition notebook :: "nat \<Rightarrow> rat \<Rightarrow> line list" where
  "notebook n e = cell4 n e @ cell10 n e @ cell12 n e @ cell20 n e"

section \<open>The inputs on which float64 arithmetic is exact\<close>

text \<open>
  A float64 holds every multiple of \<open>2^-20\<close> of magnitude below \<open>2^33\<close>: it has at
  most 53 significant bits. For \<open>n\<close> at most \<open>2^16\<close> and \<open>e\<close> a multiple of
  \<open>2^-20\<close> of magnitude at most \<open>2^30\<close>, every value the notebook computes in
  float64 is of this kind, so that no operation rounds:
  \<^item> \<open>e % 1\<close> is a multiple of \<open>2^-20\<close> between 0 and 1;
  \<^item> the level energies \<open>i + 0.5\<close> are multiples of \<open>1/2\<close>, and the ground state
    energy is at most \<open>2^30 + 2^15 + 1/2\<close>, as is any partial sum of its terms;
  \<^item> \<open>e - ground_state_energy\<close>, and its sum and difference with the ladder
    length, are multiples of \<open>2^-20\<close> of magnitude below \<open>2^32\<close>;
  \<^item> \<open>temp_energy\<close> has at most \<open>2^15\<close> entries (at most \<open>min_en\<close>, which is at
    most the ladder length when \<open>e\<close> is not below the ground state energy, and at
    most the whole array, which is then the ladder, when it is), so the dot product in
    \<open>updated_e\<close> is at most \<open>2^30\<close>;
  \<^item> a candidate \<open>i\<close> that has passed \<open>sum(i) == updated_n\<close> holds at most \<open>n\<close>
    electrons, so \<open>np.dot(i, energy)\<close> is a sum of multiples of \<open>1/2\<close>, none
    negative, that is at most \<open>n\<close> times the number of levels, which is below
    \<open>2^48\<close>, and so is every partial sum, whatever the order of the additions.
\<close>

definition float64_exact :: "nat \<Rightarrow> rat \<Rightarrow> bool" where
  "float64_exact n e \<longleftrightarrow>
     n \<le> 2 ^ 16 \<and> \<bar>e\<bar> \<le> 2 ^ 30 \<and> of_int \<lfloor>e * 2 ^ 20\<rfloor> = e * 2 ^ 20"

section \<open>The highest level according to the spec\<close>



section \<open>Notions used in the proofs\<close>

text \<open>
  These are not part of the notebook. \<open>level_sum a c\<close> is the sum of
  \<open>c[i] * (a + i)\<close>, the energy of an occupancy sequence whose first level has index
  \<open>a\<close>, without the half quantum per electron. \<open>ground_level_sum s\<close> is its least
  value for \<open>s\<close> electrons from level \<open>0\<close> on: it grows by \<open>s\<close> when two more
  electrons are added.
\<close>

fun level_sum :: "nat \<Rightarrow> int list \<Rightarrow> int" where
  "level_sum a [] = 0"
| "level_sum a (x # xs) = x * int a + level_sum (Suc a) xs"


text \<open>
  \<open>solve ws s t\<close> lists, in the order of \<open>variations\<close>, the occupancy sequences over
  the levels with energies \<open>ws\<close> that hold \<open>s\<close> electrons with energy \<open>t\<close>. It
  gives up on a branch that cannot succeed: a negative count, more electrons than two per
  remaining level, or less energy than \<open>s\<close> electrons need in the lowest remaining
  level. It serves to evaluate cell 20 on inputs whose \<open>3 ^ L\<close> candidates are too
  many to run through.
\<close>

fun solve :: "rat list \<Rightarrow> int \<Rightarrow> rat \<Rightarrow> int list list" where
  "solve [] s t = (if s = 0 \<and> t = 0 then [[]] else [])"
| "solve (w # ws) s t =
     (if s < 0 \<or> 2 * int (Suc (length ws)) < s \<or> t < of_int s * w then []
      else map ((#) 0) (solve ws s t) @ map ((#) 1) (solve ws (s - 1) (t - w))
             @ map ((#) 2) (solve ws (s - 2) (t - 2 * w)))"

text \<open>\<open>matches n e i\<close> names the test of the \<open>if\<close> in the loop of cell 20.\<close>

definition matches :: "nat \<Rightarrow> rat \<Rightarrow> int list \<Rightarrow> bool" where
  "matches n e i \<longleftrightarrow>
     sum_list i = updated_n n e \<and> dot (map of_int i) (energy n e) = updated_e n e"

section \<open>Auxiliary facts about the primitives\<close>

lemma dot_snoc: "length xs = length ys \<Longrightarrow> dot (xs @ [x]) (ys @ [y]) = dot xs ys + x * y"
  by (induction xs ys rule: list_induct2) auto


lemma dot_commute: "dot xs ys = dot ys xs"
  by (induction xs ys rule: dot.induct) auto

lemma arange_half_Suc: "arange_half (Suc m) = arange_half m @ [1 / 2 + of_nat m]"
  by (simp add: arange_half_def)

lemma length_arange_half: "length (arange_half m) = m"
  by (simp add: arange_half_def)

lemma dot_twos: "dot (replicate k 2) (arange_half k) = of_nat (k * k)"
proof (induction k)
  case 0
  show ?case by (simp add: arange_half_def)
next
  case (Suc k)
  have "dot (replicate (Suc k) 2) (arange_half (Suc k))
        = dot (replicate k 2 @ [2]) (arange_half k @ [1 / 2 + of_nat k])"
    by (simp add: arange_half_Suc replicate_append_same)
  also have "\<dots> = dot (replicate k 2) (arange_half k) + 2 * (1 / 2 + of_nat k)"
    by (simp add: dot_snoc length_arange_half)
  finally show ?case using Suc by (simp add: algebra_simps)
qed

lemma length_electron_states0: "length (electron_states0 n) = n div 2 + n mod 2"
  by (simp add: electron_states0_def Let_def)

lemma ground_state_energy_even:
  "n mod 2 = 0 \<Longrightarrow> ground_state_energy n = of_nat ((n div 2) * (n div 2))"
  by (simp add: ground_state_energy_def electron_states0_def energy0_def dot_twos)

lemma ground_state_energy_odd:
  "n mod 2 = 1 \<Longrightarrow>
   ground_state_energy n = of_nat ((n div 2) * (n div 2) + n div 2) + 1 / 2"
proof -
  assume odd: "n mod 2 = 1"
  let ?k = "n div 2"
  have "ground_state_energy n = dot (replicate ?k 2 @ [1]) (arange_half ?k @ [1 / 2 + of_nat ?k])"
    using odd by (simp add: ground_state_energy_def electron_states0_def energy0_def arange_half_Suc)
  also have "\<dots> = dot (replicate ?k 2) (arange_half ?k) + 1 * (1 / 2 + of_nat ?k)"
    by (simp add: dot_snoc length_arange_half)
  finally show ?thesis by (simp add: dot_twos)
qed

lemma extend_eq: "extend es m = es @ replicate (nat (m - int (length es))) 0"
proof (induction es m rule: extend.induct)
  case (1 es m)
  show ?case
  proof (cases "int (length es) < m")
    case True
    then have "nat (m - int (length es)) = Suc (nat (m - int (length (es @ [0]))))"
      by simp
    with True 1 show ?thesis
      by (subst extend.simps) (simp add: replicate_app_Cons_same)
  next
    case False
    then show ?thesis by (subst extend.simps) simp
  qed
qed

lemma enumeration_loop_filter:
  "enumeration_loop n e cs (printed, c) =
     (printed @ map (\<lambda>i. replicate (nat (min_en n e)) 2 @ i)
        (filter (\<lambda>i. sum_list i = updated_n n e \<and> dot (map of_int i) (energy n e) = updated_e n e) cs),
      c + length (filter (\<lambda>i. sum_list i = updated_n n e \<and> dot (map of_int i) (energy n e) = updated_e n e) cs))"
  by (induction cs arbitrary: printed c) auto

lemma variations_Suc3:
  "variations [a, b, c] (Suc k) =
     map ((#) a) (variations [a, b, c] k) @ map ((#) b) (variations [a, b, c] k)
       @ map ((#) c) (variations [a, b, c] k)"
  by simp

lemma set_variations: "set (variations seq k) = {xs. length xs = k \<and> set xs \<subseteq> set seq}"
proof (induction k)
  case 0
  show ?case by auto
next
  case (Suc k)
  show ?case
  proof (rule set_eqI)
    fix xs :: "'a list"
    show "xs \<in> set (variations seq (Suc k)) \<longleftrightarrow> xs \<in> {xs. length xs = Suc k \<and> set xs \<subseteq> set seq}"
      using Suc by (cases xs) auto
  qed
qed

lemma length_variations: "length (variations seq k) = length seq ^ k"
proof (induction k)
  case 0
  show ?case by simp
next
  case (Suc k)
  have "length (variations seq (Suc k)) = sum_list (map (\<lambda>x. length (variations seq k)) seq)"
    by (simp add: length_concat comp_def)
  also have "\<dots> = length seq * length (variations seq k)"
    by (simp add: sum_list_triv)
  finally show ?case using Suc by simp
qed


section \<open>The derived quantities on valid inputs\<close>

lemma py_int_of_int: "py_int (of_int z) = z"
  by (simp add: py_int_def)

lemma py_mod1_frac: "py_mod1 x = frac x"
  by (simp add: py_mod1_def frac_def)

lemma parity_excess_int:
  assumes "parity_ok n e"
  shows "\<exists>z::int. e - ground_state_energy n = of_int z"
proof (cases "n mod 2 = 0")
  case True
  with assms have "e = of_int \<lfloor>e\<rfloor>" by (simp add: parity_ok_def py_mod1_def)
  then have "e - ground_state_energy n = of_int (\<lfloor>e\<rfloor> - int ((n div 2) * (n div 2)))"
    using ground_state_energy_even [OF True] by simp
  then show ?thesis ..
next
  case False
  then have odd: "n mod 2 = 1" by presburger
  with assms have "e = of_int \<lfloor>e\<rfloor> + 1 / 2" by (simp add: parity_ok_def py_mod1_def)
  then have "e - ground_state_energy n
               = of_int (\<lfloor>e\<rfloor> - int ((n div 2) * (n div 2) + n div 2))"
    using ground_state_energy_odd [OF odd] by simp
  then show ?thesis ..
qed

lemma valid_excess:
  assumes "parity_ok n e" and "ground_state_energy n \<le> e"
  shows "\<exists>x::nat. e = ground_state_energy n + of_nat x"
proof -
  from parity_excess_int [OF assms(1)] obtain z :: int
    where z: "e - ground_state_energy n = of_int z" ..
  with assms(2) have "0 \<le> z" by (metis diff_ge_0_iff_ge of_int_0_le_iff)
  then have "e = ground_state_energy n + of_nat (nat z)" using z by (simp add: algebra_simps)
  then show ?thesis ..
qed

lemma max_en_excess:
  "max_en n (ground_state_energy n + of_nat x) = int (length (electron_states0 n)) + int x"
proof -
  have "max_en n (ground_state_energy n + of_nat x)
          = py_int (of_int (int (length (electron_states0 n)) + int x))"
    by (simp add: max_en_def)
  then show ?thesis by (simp only: py_int_of_int)
qed

lemma min_en_excess:
  "min_en n (ground_state_energy n + of_nat x) = max 0 (int (n div 2) - int x)"
proof -
  have "py_int (of_nat (length (electron_states0 n)) - (ground_state_energy n + of_nat x - ground_state_energy n))
          = py_int (of_int (int (length (electron_states0 n)) - int x))"
    by simp
  then have "py_int (of_nat (length (electron_states0 n)) - (ground_state_energy n + of_nat x - ground_state_energy n))
          = int (length (electron_states0 n)) - int x"
    by (simp only: py_int_of_int)
  then show ?thesis
    by (auto simp add: min_en_def Let_def length_electron_states0)
qed

lemma length_electron_states:
  "length (electron_states n e) = max (length (electron_states0 n)) (nat (max_en n e))"
  by (simp add: electron_states_def extend_eq) 

lemma energy_all_excess:
  "energy_all n (ground_state_energy n + of_nat x) = arange_half (length (electron_states0 n) + x)"
  by (simp add: energy_all_def length_electron_states max_en_excess nat_add_distrib)

section \<open>Level sums and the ground state\<close>





lemma dot_level_sum:
  "dot (map of_int c) (map (\<lambda>i. 1 / 2 + of_nat (a + i)) [0..<length c])
     = of_int (level_sum a c) + of_int (sum_list c) / 2"
proof (induction c arbitrary: a)
  case Nil
  show ?case by simp
next
  case (Cons x c)
  have "dot (map of_int (x # c)) (map (\<lambda>i. 1 / 2 + of_nat (a + i)) [0..<length (x # c)])
      = of_int x * (1 / 2 + of_nat (a + 0))
        + dot (map of_int c) (map (\<lambda>i. 1 / 2 + of_nat (a + Suc i)) [0..<length c])"
    by (simp only: length_Cons map_upt_Suc list.map dot.simps)
  also have "\<dots> = of_int x * (1 / 2 + of_nat a)
        + dot (map of_int c) (map (\<lambda>i. 1 / 2 + of_nat (Suc a + i)) [0..<length c])"
    by simp
  also have "\<dots> = of_int x * (1 / 2 + of_nat a)
        + (of_int (level_sum (Suc a) c) + of_int (sum_list c) / 2)"
    by (simp only: Cons)
  also have "\<dots> = of_int (level_sum a (x # c)) + of_int (sum_list (x # c)) / 2"
    by (simp add: algebra_simps add_divide_distrib)
  finally show ?case .
qed


section \<open>The least energy of an occupancy sequence\<close>

lemma sum_list_nonneg_012: "set c \<subseteq> {0, 1, 2} \<Longrightarrow> 0 \<le> sum_list (c :: int list)"
  by (induction c) auto






section \<open>The untouched low levels are full in every solution\<close>



section \<open>The loop of cell 20 as a filter\<close>

lemma cell20_state_eq:
  "cell20_state n e =
     (map ((@) (replicate (nat (min_en n e)) 2))
        (filter (matches n e) (variations [0, 1, 2] (length (energy n e)))),
      length (filter (matches n e) (variations [0, 1, 2] (length (energy n e)))))"
  unfolding cell20_state_def enumeration_loop_filter matches_def by simp

lemma configurations_eq:
  "configurations n e =
     map ((@) (replicate (nat (min_en n e)) 2))
       (filter (matches n e) (variations [0, 1, 2] (length (energy n e))))"
  by (simp add: configurations_def cell20_state_eq)

lemma count_eq: "count n e = length (configurations n e)"
  by (simp add: configurations_def count_def cell20_state_eq)

lemma min_en_nonneg: "0 \<le> min_en n e"
  by (simp add: min_en_def Let_def)

lemma temp_energy_dot:
  assumes "nat (min_en n e) \<le> length (energy_all n e)"
  shows "dot (temp_energy n e) (replicate (length (temp_energy n e)) 2)
           = dot (replicate (nat (min_en n e)) 2) (take (nat (min_en n e)) (energy_all n e))"
proof (cases "min_en n e = 0")
  case True
  then show ?thesis by (simp add: temp_energy_def)
next
  case False
  then have "temp_energy n e = take (nat (min_en n e)) (energy_all n e)"
    by (simp add: temp_energy_def)
  moreover have "length (take (nat (min_en n e)) (energy_all n e)) = nat (min_en n e)"
    using assms by simp
  ultimately show ?thesis by (simp add: dot_commute)
qed



section \<open>What a printed configuration satisfies\<close>




section \<open>Order and distinctness of the printed configurations\<close>

lemma last_notebook: "last (notebook n e) = There_are_configurations (count n e)"
  by (simp add: notebook_def cell20_def)


lemma take_arange_half: "m \<le> k \<Longrightarrow> take m (arange_half k) = arange_half m"
  by (simp add: arange_half_def take_map)

lemma sorted_variations:
  "sorted_wrt (\<lambda>a b. (a, b) \<in> lexord {(x, y). x < y}) (variations [0, 1, 2 :: int] k)"
proof (induction k)
  case 0
  show ?case by simp
next
  case (Suc k)
  then show ?case
    unfolding variations_Suc3 by (auto simp: sorted_wrt_append sorted_wrt_map)
qed

lemma tails_configurations:
  "map (drop (nat (min_en n e))) (configurations n e)
     = filter (matches n e) (variations [0, 1, 2] (length (energy n e)))"
  by (simp add: configurations_eq comp_def)

section \<open>The residual problem on valid inputs\<close>

lemma square_le_ground_state_energy: "of_nat ((n div 2) * (n div 2)) \<le> ground_state_energy n"
proof (cases "n mod 2 = 0")
  case True
  then show ?thesis by (simp add: ground_state_energy_even)
next
  case False
  then have "n mod 2 = 1" by presburger
  then show ?thesis by (simp add: ground_state_energy_odd)
qed

lemma updated_e_excess:
  assumes x: "e = ground_state_energy n + of_nat x"
  shows "updated_e n e = e - of_nat (nat (min_en n e) * nat (min_en n e))"
proof -
  let ?m = "nat (min_en n e)"
  have m: "min_en n e = max 0 (int (n div 2) - int x)" by (simp only: x min_en_excess)
  have mM: "?m \<le> length (electron_states0 n) + x"
    unfolding m length_electron_states0 by linarith
  have ea: "energy_all n e = arange_half (length (electron_states0 n) + x)"
    by (simp only: x energy_all_excess)
  have "dot (temp_energy n e) (replicate (length (temp_energy n e)) 2)
          = dot (replicate ?m 2) (take ?m (energy_all n e))"
    by (rule temp_energy_dot) (simp add: ea length_arange_half mM)
  also have "\<dots> = dot (replicate ?m 2) (arange_half ?m)"
    by (simp only: ea take_arange_half [OF mM])
  also have "\<dots> = of_nat (?m * ?m)" by (rule dot_twos)
  finally show ?thesis by (simp only: updated_e_def)
qed

lemma residual_bounds:
  fixes N K R X m M l len un :: int
  assumes "N = 2 * K + R" and "0 \<le> R" and "0 \<le> X" and "0 \<le> K"
    and "m = max 0 (K - X)" and "M = len + X" and "len = K + R"
    and "l = M - m" and "un = N - 2 * m"
  shows "m \<le> len \<and> len \<le> M \<and> 0 \<le> un \<and> un \<le> 2 * l"
  using assms by (auto simp: max_def)

section \<open>The ground state energy as input\<close>

lemma ground_state_residual:
  "min_en n (ground_state_energy n) = int (n div 2) \<and>
   energy n (ground_state_energy n) = (if n mod 2 = 1 then [1 / 2 + of_nat (n div 2)] else []) \<and>
   updated_n n (ground_state_energy n) = int (n mod 2) \<and>
   updated_e n (ground_state_energy n) = (if n mod 2 = 1 then 1 / 2 + of_nat (n div 2) else 0)"
proof -
  let ?e = "ground_state_energy n"
  let ?k = "n div 2"
  have x: "?e = ground_state_energy n + of_nat (0 :: nat)" by simp
  have m: "min_en n ?e = int ?k" using min_en_excess [of n 0] by simp
  have ea: "energy_all n ?e = arange_half (?k + n mod 2)"
    using energy_all_excess [of n 0] by (simp add: length_electron_states0)
  have en: "energy n ?e = (if n mod 2 = 1 then [1 / 2 + of_nat ?k] else [])"
  proof (cases "n mod 2 = 1")
    case True
    then show ?thesis by (simp add: energy_def m ea arange_half_Suc length_arange_half)
  next
    case False
    then have "n mod 2 = 0" by presburger
    then show ?thesis by (simp add: energy_def m ea length_arange_half)
  qed
  have n: "int n = 2 * int ?k + int (n mod 2)"
    by (metis mult_div_mod_eq of_nat_add of_nat_mult of_nat_numeral)
  have un: "updated_n n ?e = int (n mod 2)" using n by (simp add: updated_n_def m)
  have "updated_e n ?e = ?e - of_nat (?k * ?k)"
    using updated_e_excess [OF x] by (simp add: m)
  moreover have "?e - of_nat (?k * ?k) = (if n mod 2 = 1 then 1 / 2 + of_nat ?k else 0)"
  proof (cases "n mod 2 = 1")
    case True
    then show ?thesis by (simp add: ground_state_energy_odd)
  next
    case False
    then have "n mod 2 = 0" by presburger
    then show ?thesis by (simp add: ground_state_energy_even)
  qed
  ultimately show ?thesis using m en un by simp
qed

section \<open>A search that prunes, equal to the loop of cell 20\<close>

lemma sum_list_bounds_012:
  "set c \<subseteq> {0, 1, 2} \<Longrightarrow> 0 \<le> sum_list (c :: int list) \<and> sum_list c \<le> 2 * int (length c)"
  by (induction c) auto

lemma dot_lower:
  assumes "length c = length ws" and "set c \<subseteq> {0, 1, 2}" and "\<forall>v\<in>set ws. w \<le> v"
  shows "of_int (sum_list c) * w \<le> dot (map of_int c) ws"
  using assms
proof (induction c ws rule: list_induct2)
  case Nil
  show ?case by simp
next
  case (Cons x c v ws)
  then have ih: "of_int (sum_list c) * w \<le> dot (map of_int c) ws" by simp
  have "0 \<le> x" using Cons.prems(1) by auto
  moreover have "w \<le> v" using Cons.prems(2) by simp
  ultimately have "of_int x * w \<le> of_int x * v" by (simp add: mult_left_mono)
  with ih show ?case by (simp add: algebra_simps)
qed

lemma solve_eq_filter:
  "sorted ws \<Longrightarrow>
   filter (\<lambda>i. sum_list i = s \<and> dot (map of_int i) ws = t) (variations [0, 1, 2] (length ws))
     = solve ws s t"
proof (induction ws arbitrary: s t)
  case Nil
  show ?case by auto
next
  case (Cons w ws)
  let ?V = "variations [0, 1, 2 :: int] (length ws)"
  let ?P = "\<lambda>i. sum_list i = s \<and> dot (map of_int i) (w # ws) = t"
  from Cons.prems have sorted: "sorted ws" and least: "\<forall>v\<in>set (w # ws). w \<le> v" by auto
  show ?case
  proof (cases "s < 0 \<or> 2 * int (Suc (length ws)) < s \<or> t < of_int s * w")
    case True
    have "\<not> ?P c" if c: "c \<in> set (variations [0, 1, 2] (length (w # ws)))" for c
    proof
      assume p: "?P c"
      from c have lc: "length c = length (w # ws)" and sc: "set c \<subseteq> {0, 1, 2}"
        by (auto simp: set_variations)
      from sum_list_bounds_012 [OF sc] p lc have "0 \<le> s" "s \<le> 2 * int (Suc (length ws))"
        by auto
      moreover from dot_lower [OF lc sc least] p have "of_int s * w \<le> t" by simp
      ultimately show False using True by auto
    qed
    then have "filter ?P (variations [0, 1, 2] (length (w # ws))) = []"
      by (simp only: filter_empty_conv) blast
    then show ?thesis using True by simp
  next
    case False
    have step: "filter ?P (map ((#) x) ?V) = map ((#) x) (solve ws (s - x) (t - of_int x * w))" for x
    proof -
      have "filter ?P (map ((#) x) ?V)
              = map ((#) x) (filter (\<lambda>i. sum_list i = s - x \<and> dot (map of_int i) ws = t - of_int x * w) ?V)"
        by (auto simp add: filter_map comp_def algebra_simps intro!: arg_cong [where f = "map ((#) x)"] filter_cong)
      then show ?thesis by (simp only: Cons.IH [OF sorted])
    qed
    have "filter ?P (variations [0, 1, 2] (length (w # ws)))
            = filter ?P (map ((#) 0) ?V) @ filter ?P (map ((#) 1) ?V) @ filter ?P (map ((#) 2) ?V)"
      by simp
    also have "\<dots> = map ((#) 0) (solve ws (s - 0) (t - of_int 0 * w))
                      @ map ((#) 1) (solve ws (s - 1) (t - of_int 1 * w))
                      @ map ((#) 2) (solve ws (s - 2) (t - of_int 2 * w))"
      by (simp only: step)
    also have "\<dots> = solve (w # ws) s t" using False by simp
    finally show ?thesis .
  qed
qed

lemma sorted_arange_half: "sorted (arange_half k)"
  by (simp add: arange_half_def sorted_map sorted_wrt_map sorted_wrt_iff_nth_less)

lemma sorted_energy: "sorted (energy n e)"
  unfolding energy_def energy_all_def by (rule sorted_wrt_drop) (rule sorted_arange_half)

lemma configurations_solve:
  "configurations n e =
     map ((@) (replicate (nat (min_en n e)) 2))
       (solve (energy n e) (updated_n n e) (updated_e n e))"
  unfolding configurations_eq matches_def by (simp only: solve_eq_filter [OF sorted_energy])

section \<open>The example of the notebook\<close>

lemma configurations_20_106:
  "configurations 20 106 =
     [[2, 2, 2, 2, 1, 2, 2, 2, 2, 2, 1, 0, 0, 0, 0, 0],
      [2, 2, 2, 2, 2, 1, 2, 2, 2, 1, 2, 0, 0, 0, 0, 0],
      [2, 2, 2, 2, 2, 1, 2, 2, 2, 2, 0, 1, 0, 0, 0, 0],
      [2, 2, 2, 2, 2, 2, 1, 2, 1, 2, 2, 0, 0, 0, 0, 0],
      [2, 2, 2, 2, 2, 2, 1, 2, 2, 1, 1, 1, 0, 0, 0, 0],
      [2, 2, 2, 2, 2, 2, 1, 2, 2, 2, 0, 0, 1, 0, 0, 0],
      [2, 2, 2, 2, 2, 2, 2, 0, 2, 2, 2, 0, 0, 0, 0, 0],
      [2, 2, 2, 2, 2, 2, 2, 1, 1, 2, 1, 1, 0, 0, 0, 0],
      [2, 2, 2, 2, 2, 2, 2, 1, 2, 0, 2, 1, 0, 0, 0, 0],
      [2, 2, 2, 2, 2, 2, 2, 1, 2, 1, 0, 2, 0, 0, 0, 0],
      [2, 2, 2, 2, 2, 2, 2, 1, 2, 1, 1, 0, 1, 0, 0, 0],
      [2, 2, 2, 2, 2, 2, 2, 1, 2, 2, 0, 0, 0, 1, 0, 0],
      [2, 2, 2, 2, 2, 2, 2, 2, 0, 1, 2, 1, 0, 0, 0, 0],
      [2, 2, 2, 2, 2, 2, 2, 2, 0, 2, 0, 2, 0, 0, 0, 0],
      [2, 2, 2, 2, 2, 2, 2, 2, 0, 2, 1, 0, 1, 0, 0, 0],
      [2, 2, 2, 2, 2, 2, 2, 2, 1, 0, 1, 2, 0, 0, 0, 0],
      [2, 2, 2, 2, 2, 2, 2, 2, 1, 0, 2, 0, 1, 0, 0, 0],
      [2, 2, 2, 2, 2, 2, 2, 2, 1, 1, 0, 1, 1, 0, 0, 0],
      [2, 2, 2, 2, 2, 2, 2, 2, 1, 1, 1, 0, 0, 1, 0, 0],
      [2, 2, 2, 2, 2, 2, 2, 2, 1, 2, 0, 0, 0, 0, 1, 0],
      [2, 2, 2, 2, 2, 2, 2, 2, 2, 0, 0, 0, 2, 0, 0, 0],
      [2, 2, 2, 2, 2, 2, 2, 2, 2, 0, 0, 1, 0, 1, 0, 0],
      [2, 2, 2, 2, 2, 2, 2, 2, 2, 0, 1, 0, 0, 0, 1, 0],
      [2, 2, 2, 2, 2, 2, 2, 2, 2, 1, 0, 0, 0, 0, 0, 1]]"
proof -
  have "map ((@) (replicate (nat (min_en 20 106)) 2))
          (solve (energy 20 106) (updated_n 20 106) (updated_e 20 106)) =
     [[2, 2, 2, 2, 1, 2, 2, 2, 2, 2, 1, 0, 0, 0, 0, 0],
      [2, 2, 2, 2, 2, 1, 2, 2, 2, 1, 2, 0, 0, 0, 0, 0],
      [2, 2, 2, 2, 2, 1, 2, 2, 2, 2, 0, 1, 0, 0, 0, 0],
      [2, 2, 2, 2, 2, 2, 1, 2, 1, 2, 2, 0, 0, 0, 0, 0],
      [2, 2, 2, 2, 2, 2, 1, 2, 2, 1, 1, 1, 0, 0, 0, 0],
      [2, 2, 2, 2, 2, 2, 1, 2, 2, 2, 0, 0, 1, 0, 0, 0],
      [2, 2, 2, 2, 2, 2, 2, 0, 2, 2, 2, 0, 0, 0, 0, 0],
      [2, 2, 2, 2, 2, 2, 2, 1, 1, 2, 1, 1, 0, 0, 0, 0],
      [2, 2, 2, 2, 2, 2, 2, 1, 2, 0, 2, 1, 0, 0, 0, 0],
      [2, 2, 2, 2, 2, 2, 2, 1, 2, 1, 0, 2, 0, 0, 0, 0],
      [2, 2, 2, 2, 2, 2, 2, 1, 2, 1, 1, 0, 1, 0, 0, 0],
      [2, 2, 2, 2, 2, 2, 2, 1, 2, 2, 0, 0, 0, 1, 0, 0],
      [2, 2, 2, 2, 2, 2, 2, 2, 0, 1, 2, 1, 0, 0, 0, 0],
      [2, 2, 2, 2, 2, 2, 2, 2, 0, 2, 0, 2, 0, 0, 0, 0],
      [2, 2, 2, 2, 2, 2, 2, 2, 0, 2, 1, 0, 1, 0, 0, 0],
      [2, 2, 2, 2, 2, 2, 2, 2, 1, 0, 1, 2, 0, 0, 0, 0],
      [2, 2, 2, 2, 2, 2, 2, 2, 1, 0, 2, 0, 1, 0, 0, 0],
      [2, 2, 2, 2, 2, 2, 2, 2, 1, 1, 0, 1, 1, 0, 0, 0],
      [2, 2, 2, 2, 2, 2, 2, 2, 1, 1, 1, 0, 0, 1, 0, 0],
      [2, 2, 2, 2, 2, 2, 2, 2, 1, 2, 0, 0, 0, 0, 1, 0],
      [2, 2, 2, 2, 2, 2, 2, 2, 2, 0, 0, 0, 2, 0, 0, 0],
      [2, 2, 2, 2, 2, 2, 2, 2, 2, 0, 0, 1, 0, 1, 0, 0],
      [2, 2, 2, 2, 2, 2, 2, 2, 2, 0, 1, 0, 0, 0, 1, 0],
      [2, 2, 2, 2, 2, 2, 2, 2, 2, 1, 0, 0, 0, 0, 0, 1]]"
    by code_simp
  then show ?thesis by (simp only: configurations_solve)
qed

section \<open>Inputs that draw the warning\<close>

lemma parity_ok_iff:
  "parity_ok n e \<longleftrightarrow> (even n \<and> e \<in> \<int>) \<or> (odd n \<and> frac e = 1 / 2)"
  by (auto simp add: parity_ok_def py_mod1_frac even_iff_mod_2_eq_zero odd_iff_mod_2_eq_one)

lemma parity_ok_half_integer:
  assumes "e = of_int a + of_nat n / 2"
  shows "parity_ok n e"
proof -
  have n: "(of_nat n :: rat) = 2 * of_nat (n div 2) + of_nat (n mod 2)"
    by (metis mult_div_mod_eq of_nat_add of_nat_mult of_nat_numeral)
  have "n mod 2 = 0 \<or> n mod 2 = 1" by presburger
  then show ?thesis
  proof
    assume r: "n mod 2 = 0"
    have "e = of_int (a + int (n div 2))" using assms n r by simp
    then have "py_mod1 e = 0" by (simp only: py_mod1_frac frac_of_int)
    then show ?thesis using r by (simp add: parity_ok_def)
  next
    assume r: "n mod 2 = 1"
    have "e = 1 / 2 + of_int (a + int (n div 2))" using assms n r by simp
    then have "py_mod1 e = frac (1 / 2)" by (simp only: py_mod1_frac frac_add_of_int_right)
    then have "py_mod1 e = 1 / 2" by (simp add: frac_eq)
    then show ?thesis using r by (simp add: parity_ok_def)
  qed
qed

lemma take_arange_half_min: "take m (arange_half k) = arange_half (min m k)"
  by (cases "m \<le> k") (simp_all add: take_arange_half length_arange_half min_def)

lemma temp_energy_dot_int:
  "\<exists>z::int. dot (temp_energy n e) (replicate (length (temp_energy n e)) 2) = of_int z"
proof (cases "min_en n e = 0")
  case True
  then have "dot (temp_energy n e) (replicate (length (temp_energy n e)) 2) = of_int 0"
    by (simp add: temp_energy_def)
  then show ?thesis ..
next
  case False
  let ?j = "min (nat (min_en n e)) (length (electron_states n e))"
  have "temp_energy n e = arange_half ?j"
    using False by (simp add: temp_energy_def energy_all_def take_arange_half_min)
  then have "dot (temp_energy n e) (replicate (length (temp_energy n e)) 2)
               = dot (replicate ?j 2) (arange_half ?j)"
    by (simp only: length_arange_half dot_commute)
  also have "\<dots> = of_int (int (?j * ?j))" by (simp only: dot_twos of_int_of_nat_eq)
  finally show ?thesis ..
qed

lemma drop_arange_half:
  "drop m (arange_half k) = map (\<lambda>j. 1 / 2 + of_nat (m + j)) [0..<k - m]"
proof -
  have "[m..<k] = map (\<lambda>j. m + j) [0..<k - m]"
    by (cases "m \<le> k") (simp_all add: map_add_upt add.commute)
  then show ?thesis by (simp add: arange_half_def drop_map comp_def)
qed

lemma matches_parity_ok:
  assumes "matches n e i" and "length i = length (energy n e)"
  shows "parity_ok n e"
proof -
  let ?m = "nat (min_en n e)"
  let ?K = "length (electron_states n e)"
  have en: "energy n e = map (\<lambda>j. 1 / 2 + of_nat (?m + j)) [0..<?K - ?m]"
    by (simp only: energy_def energy_all_def drop_arange_half)
  then have "length i = ?K - ?m" using assms(2) by simp
  then have "dot (map of_int i) (energy n e)
               = dot (map of_int i) (map (\<lambda>j. 1 / 2 + of_nat (?m + j)) [0..<length i])"
    by (simp only: en)
  also have "\<dots> = of_int (level_sum ?m i) + of_int (sum_list i) / 2"
    by (rule dot_level_sum)
  finally have d: "dot (map of_int i) (energy n e)
                     = of_int (level_sum ?m i) + of_int (sum_list i) / 2" .
  obtain z :: int where z: "dot (temp_energy n e) (replicate (length (temp_energy n e)) 2) = of_int z"
    using temp_energy_dot_int by blast
  from assms(1) have s: "sum_list i = int n - min_en n e * 2"
    and t: "dot (map of_int i) (energy n e) = e - of_int z"
    by (simp_all add: matches_def updated_n_def updated_e_def z)
  have "e = of_int z + of_int (level_sum ?m i) + of_int (int n - min_en n e * 2) / 2"
    using t d s by simp
  also have "\<dots> = of_int (z + level_sum ?m i - min_en n e) + of_nat n / 2"
    by (simp add: diff_divide_distrib)
  finally show ?thesis by (rule parity_ok_half_integer)
qed

lemma below_ground_arith:
  fixes N K R z :: int
  assumes "N = 2 * K + R" and "R \<le> 1" and "z < 0"
  shows "N - (K - z) * 2 < 0"
  using assms by (simp add: algebra_simps)

lemma below_ground_state_no_match:
  assumes "parity_ok n e" and "e < ground_state_energy n" and "set i \<subseteq> {0, 1, 2}"
  shows "\<not> matches n e i"
proof
  assume "matches n e i"
  then have s: "sum_list i = int n - min_en n e * 2" by (simp add: matches_def updated_n_def)
  from parity_excess_int [OF assms(1)] obtain z :: int
    where z: "e - ground_state_energy n = of_int z" ..
  with assms(2) have "(of_int z :: rat) < 0" by simp
  then have z0: "z < 0" by simp
  have "py_int (of_nat (length (electron_states0 n)) - (e - ground_state_energy n))
          = py_int (of_int (int (length (electron_states0 n)) - z))"
    by (simp add: z)
  then have p: "py_int (of_nat (length (electron_states0 n)) - (e - ground_state_energy n))
          = int (n div 2) + int (n mod 2) - z"
    by (simp only: py_int_of_int length_electron_states0 of_nat_add)
  have m: "min_en n e = int (n div 2) - z"
  proof (cases "n mod 2 = 1")
    case True
    then show ?thesis using z0 by (simp add: min_en_def Let_def p)
  next
    case False
    then have "n mod 2 = 0" by presburger
    then show ?thesis using z0 by (simp add: min_en_def Let_def p)
  qed
  have n: "int n = 2 * int (n div 2) + int (n mod 2)"
    by (metis mult_div_mod_eq of_nat_add of_nat_mult of_nat_numeral)
  have "int (n mod 2) \<le> 1" by simp
  then have "sum_list i < 0" unfolding s m by (rule below_ground_arith [OF n _ z0])
  moreover have "0 \<le> sum_list i" using assms(3) by (rule sum_list_nonneg_012)
  ultimately show False by simp
qed

lemma invalid_no_configuration:
  assumes "\<not> parity_ok n e \<or> e < ground_state_energy n"
  shows "configurations n e = []"
proof -
  have "\<not> matches n e i" if i: "i \<in> set (variations [0, 1, 2] (length (energy n e)))" for i
  proof (cases "parity_ok n e")
    case True
    with assms have "e < ground_state_energy n" by simp
    moreover have "set i \<subseteq> {0, 1, 2}" using i by (auto simp: set_variations)
    ultimately show ?thesis using True by (simp add: below_ground_state_no_match)
  next
    case False
    moreover have "length i = length (energy n e)" using i by (simp add: set_variations)
    ultimately show ?thesis using matches_parity_ok by blast
  qed
  then have "filter (matches n e) (variations [0, 1, 2] (length (energy n e))) = []"
    by (simp only: filter_empty_conv) blast
  then show ?thesis by (simp add: configurations_eq)
qed

lemma invalid_values_printed:
  "Invalid_values \<in> set (notebook n e) \<longleftrightarrow> \<not> parity_ok n e \<or> e < ground_state_energy n"
  by (auto simp add: notebook_def cell4_def cell10_def cell12_def cell20_def)

section \<open>The highest level of the notebook is that of the spec\<close>




section \<open>The claims\<close>







text \<open>
  Claim C4, as amended. In the range where the notebook's float64 arithmetic is exact
  (\<open>n\<close> at most \<open>2^16\<close>, \<open>e\<close> a multiple of \<open>2^-20\<close> of magnitude at most \<open>2^30\<close>) the
  notebook prints the warning \<open>Invalid values\<close> exactly when the parity of \<open>e\<close>
  does not fit \<open>n\<close> (\<open>e\<close> not an integer for even \<open>n\<close>, or the fractional part of
  \<open>e\<close> other than \<open>0.5\<close> for odd \<open>n\<close>) or \<open>e\<close> is below the ground state energy. It
  raises no error: the run goes on to the enumeration of cell 20, whose last line
  reports the count, and on such an input the enumeration prints no configuration and
  reports 0.
\<close>

theorem invalid_values_is_a_warning:
  assumes "float64_exact n e"
  shows "(Invalid_values \<in> set (notebook n e) \<longleftrightarrow>
            (even n \<and> e \<notin> \<int>) \<or> (odd n \<and> frac e \<noteq> 1 / 2) \<or> e < ground_state_energy n) \<and>
         last (notebook n e) = There_are_configurations (count n e) \<and>
         ((even n \<and> e \<notin> \<int>) \<or> (odd n \<and> frac e \<noteq> 1 / 2) \<or> e < ground_state_energy n \<longrightarrow>
            configurations n e = [] \<and> count n e = 0)"
proof -
  have inv: "(even n \<and> e \<notin> \<int>) \<or> (odd n \<and> frac e \<noteq> 1 / 2) \<or> e < ground_state_energy n
               \<longleftrightarrow> \<not> parity_ok n e \<or> e < ground_state_energy n"
    unfolding parity_ok_iff by blast
  have "configurations n e = [] \<and> count n e = 0"
    if "\<not> parity_ok n e \<or> e < ground_state_energy n"
    using invalid_no_configuration [OF that] by (simp add: count_eq)
  then show ?thesis
    unfolding inv by (simp add: invalid_values_printed last_notebook)
qed

theorem invalid_values_is_a_warning_witness:
  "float64_exact 3 5 \<and> odd (3 :: nat) \<and> frac (5 :: rat) \<noteq> 1 / 2 \<and>
   Invalid_values \<in> set (notebook 3 5) \<and>
   last (notebook 3 5) = There_are_configurations (count 3 5) \<and>
   configurations 3 5 = [] \<and> count 3 5 = 0"
proof -
  have h0: "float64_exact 3 5" by (simp add: float64_exact_def)
  have f: "frac (5 :: rat) = 0" by (simp add: frac_def)
  have "frac (5 :: rat) \<noteq> 1 / 2" unfolding f by simp
  moreover have "odd (3 :: nat)" by simp
  ultimately have h: "odd (3 :: nat) \<and> frac (5 :: rat) \<noteq> 1 / 2" by blast
  show ?thesis using h0 h invalid_values_is_a_warning [OF h0] by blast
qed

theorem invalid_values_is_a_warning_counterexample:
  "2 < ground_state_energy 4 \<and>
   notebook 4 2 = [Invalid_values, Max_Min 0 4, There_are_configurations 0]"
  by code_simp

text \<open>
  Claim C5. When \<open>e\<close> is the ground state energy for \<open>n\<close> electrons, cell 10 prints
  that the given energy is the ground state energy, and cell 20 prints exactly one
  configuration, the ground state of cell 6: \<open>n // 2\<close> levels holding 2, followed
  by one level holding 1 when \<open>n\<close> is odd.
\<close>

theorem ground_state_is_the_only_configuration:
  "configurations n (ground_state_energy n)
     = [replicate (n div 2) 2 @ (if n mod 2 = 1 then [1] else [])] \<and>
   count n (ground_state_energy n) = 1 \<and>
   map of_int (replicate (n div 2) 2 @ (if n mod 2 = 1 then [1] else [])) = electron_states0 n \<and>
   cell10 n (ground_state_energy n) = [Given_energy_is_ground_state_energy]"
proof -
  let ?e = "ground_state_energy n"
  note r = ground_state_residual [of n]
  have f: "filter (matches n ?e) (variations [0, 1, 2] (length (energy n ?e)))
             = [if n mod 2 = 1 then [1] else []]"
  proof (cases "n mod 2 = 1")
    case True
    have v: "variations [0, 1, 2 :: int] (Suc 0) = [[0], [1], [2]]" by simp
    have "energy n ?e = [1 / 2 + of_nat (n div 2)]" "updated_n n ?e = 1"
      "updated_e n ?e = 1 / 2 + of_nat (n div 2)"
      using r True by simp_all
    then show ?thesis using True by (simp add: matches_def v del: variations.simps)
  next
    case False
    then have "energy n ?e = []" "updated_n n ?e = 0" "updated_e n ?e = 0"
      using r by simp_all
    then show ?thesis using False by (simp add: matches_def)
  qed
  have "configurations n ?e
          = map ((@) (replicate (nat (min_en n ?e)) 2)) [if n mod 2 = 1 then [1] else []]"
    by (simp only: configurations_eq f)
  moreover have "nat (min_en n ?e) = n div 2" using r by simp
  ultimately have c: "configurations n ?e
                        = [replicate (n div 2) 2 @ (if n mod 2 = 1 then [1] else [])]"
    by simp
  have "map of_int (replicate (n div 2) 2 @ (if n mod 2 = 1 then [1] else [])) = electron_states0 n"
    by (simp add: electron_states0_def)
  then show ?thesis using c by (simp add: count_eq cell10_def)
qed

text \<open>
  Claim C6. The residual tails of the printed configurations (what follows the first
  \<open>min_en\<close> levels) come in strictly increasing lexicographic order, the leftmost
  position being the most significant; so do the printed configurations themselves.
  The printed list is a function of \<open>(n, e)\<close> alone: the notebook reads no other
  state, so two runs on the same input print the same list.
\<close>

theorem tails_in_lexicographic_order:
  "sorted_wrt (\<lambda>a b. (a, b) \<in> lexord {(x, y). x < y})
     (map (drop (nat (min_en n e))) (configurations n e)) \<and>
   sorted_wrt (\<lambda>a b. (a, b) \<in> lexord {(x, y). x < y}) (configurations n e)"
proof
  have s: "sorted_wrt (\<lambda>a b. (a, b) \<in> lexord {(x, y). x < y})
          (filter (matches n e) (variations [0, 1, 2] (length (energy n e))))"
    by (rule sorted_wrt_filter) (rule sorted_variations)
  then show "sorted_wrt (\<lambda>a b. (a, b) \<in> lexord {(x, y). x < y})
          (map (drop (nat (min_en n e))) (configurations n e))"
    by (simp only: tails_configurations)
  have "sorted_wrt (\<lambda>a b. (replicate (nat (min_en n e)) 2 @ a, replicate (nat (min_en n e)) 2 @ b)
                        \<in> lexord {(x, y). x < (y :: int)})
          (filter (matches n e) (variations [0, 1, 2] (length (energy n e))))"
    by (rule sorted_wrt_mono_rel [OF _ s]) (rule lexord_append_leftI)
  then show "sorted_wrt (\<lambda>a b. (a, b) \<in> lexord {(x, y). x < y}) (configurations n e)"
    by (simp only: configurations_eq sorted_wrt_map)
qed

text \<open>
  Claim C7, as amended. Cell 20 takes no bound on the number \<open>L\<close> of residual levels
  and signals no error: for every input it runs the loop over all \<open>3 ^ L\<close> candidates
  and prints the configurations that pass the test, then their count.
\<close>

theorem enumeration_is_never_refused:
  "length (variations [0, 1, 2 :: int] (length (energy n e))) = 3 ^ length (energy n e) \<and>
   cell20 n e =
     map Configuration
       (map ((@) (replicate (nat (min_en n e)) 2))
          (filter (matches n e) (variations [0, 1, 2] (length (energy n e)))))
     @ [There_are_configurations
          (length (filter (matches n e) (variations [0, 1, 2] (length (energy n e)))))]"
proof -
  have "length [0, 1, 2 :: int] = 3" by simp
  then have "length (variations [0, 1, 2 :: int] (length (energy n e))) = 3 ^ length (energy n e)"
    by (simp only: length_variations)
  then show ?thesis by (simp add: cell20_def count_eq configurations_eq)
qed

theorem enumeration_is_never_refused_counterexample:
  "3 < length (energy 4 6) \<and>
   notebook 4 6 = [Max_Min 4 0, Configuration [1, 2, 1, 0], Configuration [2, 0, 2, 0],
                   Configuration [2, 1, 0, 1], There_are_configurations 3]"
  by code_simp

text \<open>
  Claim C8, as amended. For \<open>n = 20\<close> and \<open>e = 106\<close> the notebook prints exactly 24
  configurations and \<open>min_en\<close> is 4. The first configuration printed is four levels
  holding 2 followed by \<open>1 2 2 2 2 2 1 0 0 0 0 0\<close>: the residual pattern
  \<open>2 1 2 2 2 2 2 1 0 0 0 0\<close> of the claim holds 14 electrons, where 12 are left.
\<close>

theorem example_20_106:
  "length (configurations 20 106) = 24 \<and> count 20 106 = 24 \<and> min_en 20 106 = 4 \<and>
   max_en 20 106 = 16 \<and>
   hd (configurations 20 106) = [2, 2, 2, 2, 1, 2, 2, 2, 2, 2, 1, 0, 0, 0, 0, 0]"
proof -
  have "min_en 20 106 = 4" "max_en 20 106 = 16" by code_simp+
  then show ?thesis by (simp add: count_eq configurations_20_106)
qed

theorem example_20_106_counterexample:
  "hd (configurations 20 106) \<noteq> [2, 2, 2, 2, 2, 1, 2, 2, 2, 2, 2, 1, 0, 0, 0, 0]"
  by (simp add: configurations_20_106)

text \<open>
  Claim C9, as amended. The ground state energy for 2 electrons is 1, not 0.5. For
  \<open>n = 2\<close> and \<open>e = 1\<close> the notebook reports exactly one configuration, \<open>[2]\<close>;
  for \<open>e = 0.5\<close> it prints no configuration.
\<close>

theorem example_2_ground_state:
  "ground_state_energy 2 = 1 \<and>
   notebook 2 1 = [Given_energy_is_ground_state_energy, Max_Min 1 1, Configuration [2],
                   There_are_configurations 1] \<and>
   configurations 2 (1 / 2) = []"
  by code_simp

theorem example_2_half_counterexample:
  "notebook 2 (1 / 2) = [Invalid_values, Invalid_values, Max_Min 0 1, There_are_configurations 0]"
  by code_simp

text \<open>
  Claim C10. For a parity-consistent input with \<open>e\<close> at or above the ground state
  energy, \<open>0 \<le> min_en \<le> len(electron_states) \<le> max_en\<close> (the length being that of
  the ground state ladder of cell 6), the residual array \<open>energy\<close> has
  \<open>max_en - min_en\<close> entries, \<open>updated_n\<close> lies between \<open>0\<close> and twice that number,
  and \<open>updated_e\<close> is not negative. When \<open>min_en = 0\<close> the array \<open>[0]\<close> that stands for
  the empty slice contributes zero, so that \<open>updated_n = n\<close> and \<open>updated_e = e\<close>.
\<close>

theorem normalizer_meets_enumerator_preconditions:
  assumes "parity_ok n e" and "ground_state_energy n \<le> e"
  shows "0 \<le> min_en n e \<and> min_en n e \<le> int (length (electron_states0 n)) \<and>
         int (length (electron_states0 n)) \<le> max_en n e \<and>
         int (length (energy n e)) = max_en n e - min_en n e \<and>
         0 \<le> updated_n n e \<and> updated_n n e \<le> 2 * int (length (energy n e)) \<and>
         0 \<le> updated_e n e \<and>
         (min_en n e = 0 \<longrightarrow>
            dot (temp_energy n e) (replicate (length (temp_energy n e)) 2) = 0 \<and>
            updated_n n e = int n \<and> updated_e n e = e)"
proof -
  from valid_excess [OF assms] obtain x :: nat where x: "e = ground_state_energy n + of_nat x" ..
  let ?k = "n div 2"
  have m: "min_en n e = max 0 (int ?k - int x)" by (simp only: x min_en_excess)
  have M: "max_en n e = int (length (electron_states0 n)) + int x" by (simp only: x max_en_excess)
  have len: "int (length (electron_states0 n)) = int ?k + int (n mod 2)"
    by (simp add: length_electron_states0)
  have n: "int n = 2 * int ?k + int (n mod 2)"
    by (metis mult_div_mod_eq of_nat_add of_nat_mult of_nat_numeral)
  have l: "int (length (energy n e)) = max_en n e - min_en n e"
  proof -
    have "length (energy n e) = length (electron_states0 n) + x - nat (min_en n e)"
      by (simp add: energy_def x energy_all_excess length_arange_half)
    moreover have "nat (min_en n e) \<le> length (electron_states0 n) + x"
      unfolding m length_electron_states0 by linarith
    ultimately show ?thesis using M m by linarith
  qed
  have un: "updated_n n e = int n - 2 * min_en n e" by (simp add: updated_n_def)
  have ue: "updated_e n e = e - of_nat (nat (min_en n e) * nat (min_en n e))"
    by (rule updated_e_excess [OF x])
  have "nat (min_en n e) \<le> ?k" unfolding m by simp
  then have "nat (min_en n e) * nat (min_en n e) \<le> ?k * ?k" by (simp add: mult_le_mono)
  then have "(of_nat (nat (min_en n e) * nat (min_en n e)) :: rat) \<le> of_nat (?k * ?k)"
    by (simp only: of_nat_le_iff)
  also have "\<dots> \<le> ground_state_energy n" by (rule square_le_ground_state_energy)
  also have "\<dots> \<le> e" by (rule assms(2))
  finally have e0: "0 \<le> updated_e n e" unfolding ue by simp
  have sentinel: "dot (temp_energy n e) (replicate (length (temp_energy n e)) 2) = 0"
    if "min_en n e = 0"
    using that by (simp add: temp_energy_def)
  have rb: "min_en n e \<le> int (length (electron_states0 n)) \<and>
            int (length (electron_states0 n)) \<le> max_en n e \<and>
            0 \<le> updated_n n e \<and> updated_n n e \<le> 2 * int (length (energy n e))"
    by (rule residual_bounds [OF n _ _ _ m M len l un]) simp_all
  have "0 \<le> min_en n e" by (rule min_en_nonneg)
  moreover note rb
  moreover have "min_en n e = 0 \<longrightarrow>
            dot (temp_energy n e) (replicate (length (temp_energy n e)) 2) = 0 \<and>
            updated_n n e = int n \<and> updated_e n e = e"
    using sentinel by (simp add: updated_n_def updated_e_def)
  ultimately show ?thesis using l e0 by blast
qed

theorem normalizer_meets_enumerator_preconditions_witness:
  "parity_ok 4 6 \<and> ground_state_energy 4 \<le> 6 \<and> min_en 4 6 = 0 \<and>
   int (length (electron_states0 4)) \<le> max_en 4 6 \<and>
   int (length (energy 4 6)) = max_en 4 6 - min_en 4 6 \<and>
   0 \<le> updated_n 4 6 \<and> updated_n 4 6 \<le> 2 * int (length (energy 4 6)) \<and>
   dot (temp_energy 4 6) (replicate (length (temp_energy 4 6)) 2) = 0 \<and>
   updated_n 4 6 = int 4 \<and> updated_e 4 6 = 6"
proof -
  have h1: "parity_ok 4 6" by code_simp
  have h2: "ground_state_energy 4 \<le> 6" by code_simp
  have h3: "min_en 4 6 = 0" by code_simp
  show ?thesis
    using h1 h2 h3 normalizer_meets_enumerator_preconditions [OF h1 h2] by blast
qed

end
